theory Spec2Isabelle
  imports Complex_Main
begin

section \<open>Python strings\<close>

text \<open>
  A Python \<open>str\<close> is modelled as a \<open>string\<close>; each \<open>char\<close> stands for one code point
  below 256, so \<open>length\<close> is Python's \<open>len\<close> on such text. Indices are \<open>int\<close>, as in
  Python, and every index is normalised the way CPython does it for slices and for
  \<open>str.rfind\<close>: a negative index counts from the end, and is then clamped.
\<close>

definition is_space :: "char \<Rightarrow> bool" where
  \<comment> \<open>\<open>str.isspace\<close> on the code points below 256\<close>
  "is_space c = (of_char c \<in> {9, 10, 11, 12, 13, 28, 29, 30, 31, 32, 133, 160 :: nat})"

definition strip :: "string \<Rightarrow> string" where
  \<comment> \<open>\<open>str.strip()\<close> with no argument\<close>
  "strip s = rev (dropWhile is_space (rev (dropWhile is_space s)))"

definition adjust_index :: "int \<Rightarrow> int \<Rightarrow> int" where
  \<comment> \<open>the index \<open>i\<close> of a slice bound over a sequence of length \<open>n\<close>\<close>
  "adjust_index i n =
     (if n < i then n
      else if i < 0 then (if i + n < 0 then 0 else i + n)
      else i)"

definition py_slice :: "'a list \<Rightarrow> int \<Rightarrow> int \<Rightarrow> 'a list" where
  \<comment> \<open>\<open>s[start:end]\<close>\<close>
  "py_slice s start end =
     (let n = int (length s);
          lo = adjust_index start n;
          hi = adjust_index end n
      in take (nat (hi - lo)) (drop (nat lo) s))"

definition py_prefix :: "'a list \<Rightarrow> int \<Rightarrow> 'a list" where
  \<comment> \<open>\<open>s[:end]\<close>\<close>
  "py_prefix s end = py_slice s 0 end"

definition occurs_at :: "string \<Rightarrow> string \<Rightarrow> nat \<Rightarrow> bool" where
  "occurs_at s sub i = (take (length sub) (drop i s) = sub)"

definition rfind :: "string \<Rightarrow> string \<Rightarrow> int \<Rightarrow> int \<Rightarrow> int" where
  \<comment> \<open>\<open>s.rfind(sub, start, end)\<close>: the highest index at which \<open>sub\<close> lies inside
      \<open>s[start:end]\<close>, and \<open>-1\<close> when there is none\<close>
  "rfind s sub start end =
     (let n = int (length s);
          lo = adjust_index start n;
          hi = adjust_index end n
      in if hi - lo < int (length sub) then - 1
         else (case List.find (occurs_at s sub)
                      (rev [nat lo ..< Suc (nat (hi - int (length sub)))]) of
                 None \<Rightarrow> - 1
               | Some i \<Rightarrow> int i))"

section \<open>Chunker: \<open>TextSplitter\<close>\<close>

record text_splitter =
  chunk_size :: int
  chunk_overlap :: int
  separator :: string

definition default_splitter :: text_splitter where
  \<comment> \<open>the constructor's defaults: 1000, 200 and a blank line\<close>
  "default_splitter =
     \<lparr>chunk_size = 1000, chunk_overlap = 200, separator = [CHR 0x0A, CHR 0x0A]\<rparr>"

definition break_point :: "text_splitter \<Rightarrow> string \<Rightarrow> int \<Rightarrow> int \<Rightarrow> int" where
  \<comment> \<open>the nested search of one iteration, for a window \<open>[start, end)\<close> that ends
      before the end of the text\<close>
  "break_point ts text start end =
     (let bp = rfind text (separator ts) start end in
      if bp = - 1 then
        (let bp = rfind text ''.'' start end in
         if bp = - 1 then
           (let bp = rfind text '' '' start end in
            if bp = - 1 then end else bp)
         else bp)
      else bp)"

definition cut_point :: "text_splitter \<Rightarrow> string \<Rightarrow> int \<Rightarrow> int" where
  \<comment> \<open>the value of \<open>end\<close> when the chunk is cut\<close>
  "cut_point ts text start =
     (let end = start + chunk_size ts in
      if end < int (length text) then break_point ts text start end + 1 else end)"

definition next_start :: "text_splitter \<Rightarrow> string \<Rightarrow> int \<Rightarrow> int" where
  "next_start ts text start = max (start + 1) (cut_point ts text start - chunk_overlap ts)"

function split_loop :: "text_splitter \<Rightarrow> string \<Rightarrow> int \<Rightarrow> string list \<Rightarrow> string list" where
  "split_loop ts text start chunks =
     (if start < int (length text) then
        (let end = cut_point ts text start;
             chunk = strip (py_slice text start end);
             chunks' = (if chunk \<noteq> [] then chunks @ [chunk] else chunks)
         in split_loop ts text (next_start ts text start) chunks')
      else chunks)"
  by pat_completeness auto
termination
  by (relation "measure (\<lambda>(ts, text, start, chunks). nat (int (length text) - start))")
     (auto simp: next_start_def)

definition split_text :: "text_splitter \<Rightarrow> string \<Rightarrow> string list" where
  "split_text ts text =
     (if int (length text) \<le> chunk_size ts then [text] else split_loop ts text 0 [])"

text \<open>
  The loop's window starts, collected in order: the same recursion as \<open>split_loop\<close>,
  keeping the value of \<open>start\<close> at the head of each iteration instead of the chunk.
\<close>

function window_starts :: "text_splitter \<Rightarrow> string \<Rightarrow> int \<Rightarrow> int list" where
  "window_starts ts text start =
     (if start < int (length text)
      then start # window_starts ts text (next_start ts text start)
      else [])"
  by pat_completeness auto
termination
  by (relation "measure (\<lambda>(ts, text, start). nat (int (length text) - start))")
     (auto simp: next_start_def)

definition window_chunk :: "text_splitter \<Rightarrow> string \<Rightarrow> int \<Rightarrow> string" where
  "window_chunk ts text start = strip (py_slice text start (cut_point ts text start))"

definition chunks_of :: "text_splitter \<Rightarrow> string \<Rightarrow> int list \<Rightarrow> string list" where
  "chunks_of ts text starts = filter (\<lambda>c. c \<noteq> []) (map (window_chunk ts text) starts)"

section \<open>Python values, exceptions and the log\<close>

text \<open>
  An exception is a value. A function that may raise returns \<open>exn + 'a\<close>, with \<open>Inl\<close>
  for the exception; one that changes the store before raising returns the store it
  left behind as well. All the exceptions below are subclasses of Python's
  \<open>Exception\<close>, so \<open>except Exception\<close> catches each of them.
\<close>

datatype exn =
    ValueError string
  | AssertionError
  | KeyError
  | RuntimeError string
  | OSError string

text \<open>
  Metadata values: \<open>None\<close>, booleans, integers and strings (other values are not
  modelled). Python's \<open>==\<close> identifies \<open>True\<close> with \<open>1\<close> and \<open>False\<close> with \<open>0\<close>.
\<close>

datatype pyval = PNone | PBool bool | PInt int | PStr string

fun py_eq :: "pyval \<Rightarrow> pyval \<Rightarrow> bool" where
  "py_eq PNone PNone = True"
| "py_eq (PBool a) (PBool b) = (a = b)"
| "py_eq (PInt a) (PInt b) = (a = b)"
| "py_eq (PStr a) (PStr b) = (a = b)"
| "py_eq (PBool a) (PInt b) = ((if a then 1 else 0) = b)"
| "py_eq (PInt a) (PBool b) = (a = (if b then 1 else 0))"
| "py_eq _ _ = False"

type_synonym pydict = "string \<rightharpoonup> pyval"

definition dict_get :: "pydict \<Rightarrow> string \<Rightarrow> pyval" where
  \<comment> \<open>\<open>d.get(k)\<close>\<close>
  "dict_get m k = (case m k of None \<Rightarrow> PNone | Some v \<Rightarrow> v)"

text \<open>
  Modelled from the spec: \<open>utils.logger\<close> is not among the sources; a call of
  \<open>logger.info\<close>, \<open>logger.warning\<close> or \<open>logger.error\<close> appends one entry to the log.
  The log is kept for the operations of the store; a message is recorded without the
  values interpolated into it.
\<close>

datatype log_level = Info | Warning | Error

type_synonym log_entry = "log_level \<times> string"

section \<open>Vector index: \<open>FAISSVectorStore\<close>\<close>

record document =
  doc_id :: string
  content :: string
  metadata :: pydict
  created_at :: string
  embedding :: "real list option"

text \<open>
  The numeric store is the FAISS index object. Of the library, the model keeps what its
  Python wrapper checks before it calls the native code: \<open>add\<close>, \<open>train\<close> and \<open>search\<close>
  unpack \<open>n, d = x.shape\<close> and assert \<open>d == self.d\<close>; \<open>search\<close> asserts \<open>k > 0\<close>;
  adding to an index that is not trained raises. The ranking itself is computed by the
  library in single precision, and is a parameter \<open>knn\<close> of the search.
\<close>

datatype index_kind = IndexFlatL2 | IndexIVFFlat

record faiss_index =
  kind :: index_kind
  dim :: nat
  is_trained :: bool
  vectors :: "real list list"

definition ntotal :: "faiss_index \<Rightarrow> int" where
  "ntotal ix = int (length (vectors ix))"

definition new_flat :: "nat \<Rightarrow> faiss_index" where
  \<comment> \<open>\<open>faiss.IndexFlatL2(dimension)\<close>\<close>
  "new_flat n = \<lparr>kind = IndexFlatL2, dim = n, is_trained = True, vectors = []\<rparr>"

definition new_ivf :: "nat \<Rightarrow> faiss_index" where
  \<comment> \<open>\<open>faiss.IndexIVFFlat(quantizer, dimension, 100)\<close>\<close>
  "new_ivf n = \<lparr>kind = IndexIVFFlat, dim = n, is_trained = False, vectors = []\<rparr>"

datatype ndarray = Array1 "real list" | Array2 "real list list" nat

definition np_array :: "real list list \<Rightarrow> exn + ndarray" where
  \<comment> \<open>\<open>np.array(rows, dtype=np.float32)\<close>: rows of unequal length are refused\<close>
  "np_array rows =
     (case rows of
        [] \<Rightarrow> Inr (Array1 [])
      | r # rs \<Rightarrow>
          if list_all (\<lambda>x. length x = length r) rs then Inr (Array2 rows (length r))
          else Inl (ValueError ''setting an array element with a sequence''))"

definition shape0 :: "ndarray \<Rightarrow> int" where
  "shape0 a = (case a of Array1 xs \<Rightarrow> int (length xs) | Array2 rows n \<Rightarrow> int (length rows))"

definition faiss_train :: "faiss_index \<Rightarrow> ndarray \<Rightarrow> exn + faiss_index" where
  "faiss_train ix a =
     (case a of
        Array1 xs \<Rightarrow> Inl (ValueError ''not enough values to unpack'')
      | Array2 rows n \<Rightarrow>
          if n \<noteq> dim ix then Inl AssertionError
          else Inr (ix\<lparr>is_trained := True\<rparr>))"

definition faiss_add :: "faiss_index \<Rightarrow> ndarray \<Rightarrow> exn + faiss_index" where
  "faiss_add ix a =
     (case a of
        Array1 xs \<Rightarrow> Inl (ValueError ''not enough values to unpack'')
      | Array2 rows n \<Rightarrow>
          if n \<noteq> dim ix then Inl AssertionError
          else if \<not> is_trained ix then Inl (RuntimeError ''index is not trained'')
          else Inr (ix\<lparr>vectors := vectors ix @ rows\<rparr>))"

type_synonym knn = "faiss_index \<Rightarrow> real list \<Rightarrow> int \<Rightarrow> (real \<times> int) list"

definition faiss_search :: "knn \<Rightarrow> faiss_index \<Rightarrow> real list \<Rightarrow> int \<Rightarrow> exn + (real \<times> int) list" where
  \<comment> \<open>\<open>index.search(np.array([q]), k)\<close>, as the pairs of \<open>zip(distances[0], indices[0])\<close>\<close>
  "faiss_search nn ix q k =
     (if length q \<noteq> dim ix then Inl AssertionError
      else if k \<le> 0 then Inl AssertionError
      else Inr (nn ix q k))"

record store =
  dimension :: nat
  index_type :: string
  index :: faiss_index
  documents :: "string \<rightharpoonup> document"
  id_to_index :: "string \<rightharpoonup> int"
  index_to_id :: "int \<rightharpoonup> string"
  next_index :: int
  logged :: "log_entry list"

definition log_msg :: "log_level \<Rightarrow> string \<Rightarrow> store \<Rightarrow> store" where
  "log_msg lv msg s = s\<lparr>logged := logged s @ [(lv, msg)]\<rparr>"

definition train_if_needed :: "store \<Rightarrow> ndarray \<Rightarrow> (exn + unit) \<times> store" where
  \<comment> \<open>the IVF branch of \<open>add_documents\<close>\<close>
  "train_if_needed s a =
     (if index_type s = ''ivf'' \<and> \<not> is_trained (index s) then
        (if 100 \<le> shape0 a then
           (case faiss_train (index s) a of
              Inl e \<Rightarrow> (Inl e, s)
            | Inr ix \<Rightarrow> (Inr (), s\<lparr>index := ix\<rparr>))
         else
           (Inr (), (log_msg Warning ''Not enough documents to train IVF index, using flat index'' s)
                      \<lparr>index := new_flat (dimension s)\<rparr>))
      else (Inr (), s))"

fun store_loop :: "store \<Rightarrow> int \<Rightarrow> int \<Rightarrow> (document \<times> real list) list \<Rightarrow> store" where
  "store_loop s start_index i [] = s"
| "store_loop s start_index i ((doc, emb) # rest) =
     (let doc' = doc\<lparr>embedding := Some emb\<rparr>;
          index_pos = start_index + i
      in store_loop
           (s\<lparr>documents := (documents s)(doc_id doc \<mapsto> doc'),
              id_to_index := (id_to_index s)(doc_id doc \<mapsto> index_pos),
              index_to_id := (index_to_id s)(index_pos \<mapsto> doc_id doc)\<rparr>)
           start_index (i + 1) rest)"

definition add_documents :: "store \<Rightarrow> document list \<Rightarrow> real list list \<Rightarrow> (exn + unit) \<times> store" where
  "add_documents s docs embeddings =
     (if length docs \<noteq> length embeddings then
        (Inl (ValueError ''Number of documents must match number of embeddings''), s)
      else
        (case np_array embeddings of
           Inl e \<Rightarrow> (Inl e, s)
         | Inr embeddings_array \<Rightarrow>
             (case train_if_needed s embeddings_array of
                (Inl e, s1) \<Rightarrow> (Inl e, s1)
              | (Inr u, s1) \<Rightarrow>
                  (case faiss_add (index s1) embeddings_array of
                     Inl e \<Rightarrow> (Inl e, s1)
                   | Inr ix \<Rightarrow>
                       (let start_index = next_index s1;
                            s2 = store_loop (s1\<lparr>index := ix\<rparr>) start_index 0 (zip docs embeddings);
                            s3 = s2\<lparr>next_index := next_index s2 + int (length docs)\<rparr>
                        in (Inr (), log_msg Info ''Added documents to vector store'' s3))))))"

fun search_loop ::
  "store \<Rightarrow> (string \<times> pyval) list \<Rightarrow> (real \<times> int) list \<Rightarrow> (document \<times> real) list
     \<Rightarrow> (document \<times> real) list" where
  "search_loop s flt [] results = results"
| "search_loop s flt ((distance, pos) # rest) results =
     (if pos = - 1 then search_loop s flt rest results
      else
        (case index_to_id s pos of
           None \<Rightarrow> search_loop s flt rest results
         | Some did \<Rightarrow>
             (if did \<noteq> [] then
                (case documents s did of
                   None \<Rightarrow> search_loop s flt rest results
                 | Some doc \<Rightarrow>
                     (if flt \<noteq> [] \<and> \<not> list_all (\<lambda>(k, v). py_eq (dict_get (metadata doc) k) v) flt
                      then search_loop s flt rest results
                      else search_loop s flt rest (results @ [(doc, distance)])))
              else search_loop s flt rest results)))"

definition similarity_search ::
  "knn \<Rightarrow> store \<Rightarrow> real list \<Rightarrow> int \<Rightarrow> (string \<times> pyval) list \<Rightarrow> exn + (document \<times> real) list" where
  \<comment> \<open>the filter is the list of the dictionary's items; \<open>None\<close> and \<open>{}\<close> are both \<open>[]\<close>\<close>
  "similarity_search nn s query_embedding k filter_metadata =
     (if ntotal (index s) = 0 then Inr []
      else
        (case faiss_search nn (index s) query_embedding (min k (ntotal (index s))) of
           Inl e \<Rightarrow> Inl e
         | Inr found \<Rightarrow> Inr (search_loop s filter_metadata found [])))"

definition get_document :: "store \<Rightarrow> string \<Rightarrow> document option" where
  "get_document s did = documents s did"

definition delete_document :: "store \<Rightarrow> string \<Rightarrow> (exn + bool) \<times> store" where
  "delete_document s did =
     (if documents s did \<noteq> None then
        (let s1 = s\<lparr>documents := (documents s)(did := None)\<rparr> in
         case id_to_index s1 did of
           None \<Rightarrow> (Inr True, log_msg Info ''Deleted document'' s1)
         | Some index_pos \<Rightarrow>
             (let s2 = s1\<lparr>id_to_index := (id_to_index s1)(did := None)\<rparr> in
              if index_to_id s2 index_pos = None then (Inl KeyError, s2)
              else (Inr True,
                    log_msg Info ''Deleted document''
                      (s2\<lparr>index_to_id := (index_to_id s2)(index_pos := None)\<rparr>))))
      else (Inr False, s))"

subsection \<open>Persistence\<close>

text \<open>
  The persistence directory holds two artifacts. Each is missing, present but
  unreadable (reading it raises), or holds what \<open>save_index\<close> wrote.
\<close>

datatype 'a artifact = Missing | Unreadable | Stored 'a

record doc_data =
  dd_id :: string
  dd_content :: string
  dd_metadata :: pydict
  dd_created_at :: string
  dd_has_embedding :: bool

record metadata_blob =
  md_documents :: "string \<rightharpoonup> doc_data"
  md_id_to_index :: "string \<rightharpoonup> int"
  md_index_to_id :: "int \<rightharpoonup> string"
  md_next_index :: int
  md_dimension :: nat
  md_index_type :: string

record disk =
  faiss_file :: "faiss_index artifact"
  metadata_file :: "metadata_blob artifact"

definition exists_file :: "'a artifact \<Rightarrow> bool" where
  "exists_file a = (a \<noteq> Missing)"

definition read_artifact :: "string \<Rightarrow> 'a artifact \<Rightarrow> exn + 'a" where
  \<comment> \<open>\<open>faiss.read_index\<close> and \<open>pickle.load\<close> on a file that exists\<close>
  "read_artifact name a =
     (case a of
        Stored x \<Rightarrow> Inr x
      | Unreadable \<Rightarrow> Inl (RuntimeError name)
      | Missing \<Rightarrow> Inl (OSError name))"

definition to_dict :: "document \<Rightarrow> doc_data" where
  "to_dict doc =
     \<lparr>dd_id = doc_id doc, dd_content = content doc, dd_metadata = metadata doc,
      dd_created_at = created_at doc, dd_has_embedding = (embedding doc \<noteq> None)\<rparr>"

definition restore_documents :: "(string \<rightharpoonup> doc_data) \<Rightarrow> (string \<rightharpoonup> document)" where
  \<comment> \<open>the loop over \<open>metadata["documents"].items()\<close>: each entry becomes a document
      that carries its key as id and has no embedding\<close>
  "restore_documents m =
     (\<lambda>did. case m did of
              None \<Rightarrow> None
            | Some dd \<Rightarrow>
                Some \<lparr>doc_id = did, content = dd_content dd, metadata = dd_metadata dd,
                      created_at = dd_created_at dd, embedding = None\<rparr>)"

definition load_index_body :: "store \<Rightarrow> disk \<Rightarrow> (exn + unit) \<times> store" where
  \<comment> \<open>the statements inside \<open>try\<close>\<close>
  "load_index_body s dk =
     (if exists_file (faiss_file dk) \<and> exists_file (metadata_file dk) then
        (case read_artifact ''faiss.index'' (faiss_file dk) of
           Inl e \<Rightarrow> (Inl e, s)
         | Inr ix \<Rightarrow>
             (let s1 = s\<lparr>index := ix\<rparr> in
              case read_artifact ''metadata.pkl'' (metadata_file dk) of
                Inl e \<Rightarrow> (Inl e, s1)
              | Inr md \<Rightarrow>
                  (Inr (),
                   log_msg Info ''Loaded vector store''
                     (s1\<lparr>documents := restore_documents (md_documents md),
                         id_to_index := md_id_to_index md,
                         index_to_id := md_index_to_id md,
                         next_index := md_next_index md\<rparr>))))
      else (Inr (), s))"

definition load_index :: "store \<Rightarrow> disk \<Rightarrow> (exn + unit) \<times> store" where
  \<comment> \<open>\<open>try: ... except Exception as e: logger.warning(...)\<close>\<close>
  "load_index s dk =
     (case load_index_body s dk of
        (Inl e, s') \<Rightarrow> (Inr (), log_msg Warning ''Could not load existing vector store'' s')
      | (Inr u, s') \<Rightarrow> (Inr u, s'))"

definition save_index :: "store \<Rightarrow> disk \<Rightarrow> store \<times> disk" where
  \<comment> \<open>both writes succeed; a failing write would be caught and logged\<close>
  "save_index s dk =
     (log_msg Info ''Saved vector store'' s,
      \<lparr>faiss_file = Stored (index s),
       metadata_file = Stored
         \<lparr>md_documents = (\<lambda>did. map_option to_dict (documents s did)),
          md_id_to_index = id_to_index s,
          md_index_to_id = index_to_id s,
          md_next_index = next_index s,
          md_dimension = dimension s,
          md_index_type = index_type s\<rparr>\<rparr>)"

definition blank_store :: "nat \<Rightarrow> string \<Rightarrow> store" where
  \<comment> \<open>the fields as \<open>__init__\<close> sets them before it calls \<open>load_index\<close>\<close>
  "blank_store n ty =
     \<lparr>dimension = n, index_type = ty,
      index = (if ty = ''flat'' then new_flat n else new_ivf n),
      documents = Map.empty, id_to_index = Map.empty, index_to_id = Map.empty,
      next_index = 0, logged = []\<rparr>"

definition init_store :: "nat \<Rightarrow> string \<Rightarrow> disk \<Rightarrow> exn + store" where
  \<comment> \<open>\<open>FAISSVectorStore.__init__\<close>, with the FAISS library installed\<close>
  "init_store n ty dk =
     (if ty = ''flat'' \<or> ty = ''ivf'' then
        (case load_index (blank_store n ty) dk of
           (Inl e, s') \<Rightarrow> Inl e
         | (Inr u, s') \<Rightarrow> Inr (log_msg Info ''Initialized FAISS vector store'' s'))
      else Inl (ValueError ''Unsupported index type''))"

subsection \<open>States of the store\<close>

text \<open>
  What the library guarantees of the index object of a store of dimension \<open>D\<close>: it has
  that dimension, and it holds no vector while it is not trained.
\<close>

definition wf_index :: "store \<Rightarrow> bool" where
  "wf_index s = (dim (index s) = dimension s \<and> (is_trained (index s) \<or> vectors (index s) = []))"

text \<open>
  The reachable states: what the constructor returns, on any content of the persistence
  directory, and what an insertion, a deletion or a save leaves behind, whether it
  returned or raised.
\<close>

inductive reachable :: "store \<Rightarrow> bool" where
  reach_init: "init_store n ty dk = Inr s \<Longrightarrow> reachable s"
| reach_add: "reachable s \<Longrightarrow> add_documents s docs embeddings = (r, s') \<Longrightarrow> reachable s'"
| reach_delete: "reachable s \<Longrightarrow> delete_document s did = (r, s') \<Longrightarrow> reachable s'"
| reach_save: "reachable s \<Longrightarrow> save_index s dk = (s', dk') \<Longrightarrow> reachable s'"

text \<open>
  \<open>later_without did s s'\<close>: the store went from \<open>s\<close> to \<open>s'\<close> by insertions, deletions
  and saves, and no insertion was of a document with the id \<open>did\<close>.
\<close>

inductive later_without :: "string \<Rightarrow> store \<Rightarrow> store \<Rightarrow> bool" where
  later_refl: "later_without did s s"
| later_add: "later_without did s s' \<Longrightarrow> did \<notin> doc_id ` set docs
     \<Longrightarrow> add_documents s' docs embeddings = (r, s'') \<Longrightarrow> later_without did s s''"
| later_delete: "later_without did s s' \<Longrightarrow> delete_document s' x = (r, s'')
     \<Longrightarrow> later_without did s s''"
| later_save: "later_without did s s' \<Longrightarrow> save_index s' dk = (s'', dk')
     \<Longrightarrow> later_without did s s''"

definition ids_agree :: "store \<Rightarrow> bool" where
  \<comment> \<open>every document is stored under its own id\<close>
  "ids_agree s = (\<forall>k d. documents s k = Some d \<longrightarrow> doc_id d = k)"

section \<open>Embedder and index manager: \<open>MockEmbeddings\<close>, \<open>VectorStoreManager\<close>\<close>

text \<open>
  An embedder maps texts to vectors and may raise. \<open>MockEmbeddings\<close> never does: each
  coordinate comes from Python's \<open>hash\<close> of the text, a parameter here.
\<close>

record embedder =
  embed_documents :: "string list \<Rightarrow> exn + real list list"
  embed_query :: "string \<Rightarrow> exn + real list"

definition mock_vector :: "(string \<Rightarrow> int) \<Rightarrow> nat \<Rightarrow> string \<Rightarrow> real list" where
  "mock_vector hash n t = map (\<lambda>i. real_of_int ((hash t + int i) mod 1000) / 1000) [0 ..< n]"

definition mock_embeddings :: "(string \<Rightarrow> int) \<Rightarrow> nat \<Rightarrow> embedder" where
  \<comment> \<open>\<open>embed_query\<close> is element 0 of \<open>embed_documents([text])\<close>\<close>
  "mock_embeddings hash n =
     \<lparr>embed_documents = (\<lambda>texts. Inr (map (mock_vector hash n) texts)),
      embed_query = (\<lambda>t. Inr (mock_vector hash n t))\<rparr>"

text \<open>
  Fresh identifiers and the clock come from outside: \<open>uuids e\<close> is the sequence of
  values that \<open>uuid.uuid4()\<close> returns, \<open>now e\<close> the time of the call in ISO format.
\<close>

record env =
  uuids :: "nat \<Rightarrow> string"
  now :: string

record manager =
  store_type :: string
  m_dimension :: nat
  embeddings :: embedder
  m_store :: store

definition init_manager :: "(string \<Rightarrow> int) \<Rightarrow> string \<Rightarrow> nat \<Rightarrow> disk \<Rightarrow> exn + manager" where
  \<comment> \<open>\<open>VectorStoreManager.__init__\<close>; the store is built with the default index type\<close>
  "init_manager hash ty n dk =
     (if ty = ''faiss'' then
        (case init_store n ''flat'' dk of
           Inl e \<Rightarrow> Inl e
         | Inr s \<Rightarrow>
             Inr \<lparr>store_type = ty, m_dimension = n, embeddings = mock_embeddings hash n,
                  m_store = s\<rparr>)
      else Inl (ValueError ''Unsupported store type''))"

definition new_document :: "env \<Rightarrow> nat \<Rightarrow> string \<Rightarrow> pydict \<Rightarrow> document" where
  \<comment> \<open>\<open>Document(content, metadata)\<close>, drawing the identifier number \<open>k\<close>\<close>
  "new_document e k t md =
     \<lparr>doc_id = uuids e k, content = t, metadata = md, created_at = now e, embedding = None\<rparr>"

definition add_texts ::
  "env \<Rightarrow> nat \<Rightarrow> manager \<Rightarrow> disk \<Rightarrow> string list \<Rightarrow> pydict list option
     \<Rightarrow> (exn + string list) \<times> manager \<times> disk" where
  "add_texts e first m dk texts metadatas =
     (let mds = (case metadatas of None \<Rightarrow> replicate (length texts) Map.empty | Some l \<Rightarrow> l);
          pairs = zip texts mds;
          docs = map (\<lambda>(i, (t, md)). new_document e (first + i) t md)
                     (zip [0 ..< length pairs] pairs)
      in case embed_documents (embeddings m) texts of
           Inl x \<Rightarrow> (Inl x, m, dk)
         | Inr embs \<Rightarrow>
             (case add_documents (m_store m) docs embs of
                (Inl x, s1) \<Rightarrow> (Inl x, m\<lparr>m_store := s1\<rparr>, dk)
              | (Inr u, s1) \<Rightarrow>
                  (case save_index s1 dk of
                     (s2, dk') \<Rightarrow> (Inr (map doc_id docs), m\<lparr>m_store := s2\<rparr>, dk'))))"

definition manager_similarity_search ::
  "knn \<Rightarrow> manager \<Rightarrow> string \<Rightarrow> int \<Rightarrow> (string \<times> pyval) list \<Rightarrow> exn + (string \<times> real) list" where
  \<comment> \<open>\<open>VectorStoreManager.similarity_search\<close>\<close>
  "manager_similarity_search nn m query k filter_metadata =
     (case embed_query (embeddings m) query of
        Inl x \<Rightarrow> Inl x
      | Inr query_embedding \<Rightarrow>
          (case similarity_search nn (m_store m) query_embedding k filter_metadata of
             Inl x \<Rightarrow> Inl x
           | Inr results \<Rightarrow> Inr (map (\<lambda>(doc, score). (content doc, score)) results)))"

section \<open>Ingestion and context assembly: \<open>DocumentProcessor\<close>, \<open>RAGSystem\<close>\<close>

record document_chunk =
  chunk_id :: string
  chunk_content :: string
  source :: string
  chunk_index :: nat
  chunk_metadata :: pydict
  chunk_created_at :: string

definition process_text_content ::
  "text_splitter \<Rightarrow> env \<Rightarrow> nat \<Rightarrow> string \<Rightarrow> string \<Rightarrow> pydict option \<Rightarrow> document_chunk list" where
  "process_text_content ts e first text source_name md =
     (let chunks = split_text ts text in
      map (\<lambda>(i, chunk).
             \<lparr>chunk_id = uuids e (first + i), chunk_content = chunk, source = source_name,
              chunk_index = i,
              chunk_metadata =
                (case md of None \<Rightarrow> Map.empty | Some d \<Rightarrow> d)
                  (''file_type'' \<mapsto> PStr ''text'',
                   ''total_chunks'' \<mapsto> PInt (int (length chunks)),
                   ''content_length'' \<mapsto> PInt (int (length text))),
              chunk_created_at = now e\<rparr>)
          (zip [0 ..< length chunks] chunks))"

record rag_system =
  vector_store :: manager
  max_context_length :: int
  similarity_threshold :: real
  document_processor :: text_splitter

definition init_rag :: "manager \<Rightarrow> rag_system" where
  \<comment> \<open>\<open>RAGSystem(vector_store)\<close> with the default budget and threshold, and the
      module's processor, whose splitter has the default parameters\<close>
  "init_rag m =
     \<lparr>vector_store = m, max_context_length = 4000, similarity_threshold = 100,
      document_processor = default_splitter\<rparr>"

record ingest_result =
  source_name :: string
  chunks_created :: nat
  document_ids :: "string list"
  total_characters :: nat
  given_metadata :: "pydict option"
  processed_at :: string

definition ingest_metadata :: "env \<Rightarrow> string \<Rightarrow> pydict option \<Rightarrow> document_chunk \<Rightarrow> pydict" where
  \<comment> \<open>the dictionary \<open>chunk_metadata\<close> built for each chunk\<close>
  "ingest_metadata e name md chunk =
     (chunk_metadata chunk ++ (case md of None \<Rightarrow> Map.empty | Some d \<Rightarrow> d))
       (''chunk_id'' \<mapsto> PStr (chunk_id chunk),
        ''source_name'' \<mapsto> PStr name,
        ''chunk_index'' \<mapsto> PInt (int (chunk_index chunk)),
        ''processed_at'' \<mapsto> PStr (now e))"

definition add_text_content ::
  "env \<Rightarrow> rag_system \<Rightarrow> disk \<Rightarrow> string \<Rightarrow> string \<Rightarrow> pydict option
     \<Rightarrow> (exn + ingest_result) \<times> rag_system \<times> disk" where
  \<comment> \<open>the handler logs and raises the exception again, so an exception of the body is
      the exception of the call\<close>
  "add_text_content e rag dk text name md =
     (let chunks = process_text_content (document_processor rag) e 0 text name md in
      if chunks = [] then (Inl (ValueError ''No content to process''), rag, dk)
      else
        (let texts = map chunk_content chunks;
             metadatas = map (ingest_metadata e name md) chunks
         in case add_texts e (length chunks) (vector_store rag) dk texts (Some metadatas) of
              (Inl x, m', dk') \<Rightarrow> (Inl x, rag\<lparr>vector_store := m'\<rparr>, dk')
            | (Inr doc_ids, m', dk') \<Rightarrow>
                (Inr \<lparr>source_name = name, chunks_created = length chunks,
                      document_ids = doc_ids, total_characters = length text,
                      given_metadata = md, processed_at = now e\<rparr>,
                 rag\<lparr>vector_store := m'\<rparr>, dk')))"

subsection \<open>Context assembly\<close>

fun str_nat :: "nat \<Rightarrow> string" where
  \<comment> \<open>\<open>str(n)\<close> for \<open>n \<ge> 0\<close>\<close>
  "str_nat n =
     (if n < 10 then [''0123456789'' ! n]
      else str_nat (n div 10) @ [''0123456789'' ! (n mod 10)])"

fun join :: "string \<Rightarrow> string list \<Rightarrow> string" where
  \<comment> \<open>\<open>sep.join(parts)\<close>\<close>
  "join sep [] = []"
| "join sep [x] = x"
| "join sep (x # y # ys) = x @ sep @ join sep (y # ys)"

definition label :: "nat \<Rightarrow> string \<Rightarrow> string" where
  \<comment> \<open>\<open>f"[Document {i+1}]: {body}"\<close>\<close>
  "label i body = ''[Document '' @ str_nat (i + 1) @ '']: '' @ body"

record source_doc =
  src_content :: string
  similarity_score :: real
  rank :: nat

fun context_loop ::
  "int \<Rightarrow> nat \<Rightarrow> (string \<times> real) list \<Rightarrow> string list \<Rightarrow> int \<Rightarrow> source_doc list
     \<Rightarrow> string list \<times> source_doc list" where
  "context_loop mx i [] context_parts total_length source_docs = (context_parts, source_docs)"
| "context_loop mx i ((c, score) # rest) context_parts total_length source_docs =
     (if mx < total_length + int (length c) then
        (let remaining_space = mx - total_length in
         if 100 < remaining_space then
           (context_parts @ [label i (py_prefix c (remaining_space - 3) @ ''...'')], source_docs)
         else (context_parts, source_docs))
      else
        context_loop mx (i + 1) rest
          (context_parts @ [label i c])
          (total_length + int (length c))
          (source_docs @ [\<lparr>src_content = c, similarity_score = score, rank = i + 1\<rparr>]))"

text \<open>
  To state what the loop returns: the characters used by a list of hits, the source
  record of the hit at position \<open>i\<close>, and the truncated content for a remaining budget.
\<close>

definition used :: "(string \<times> real) list \<Rightarrow> int" where
  "used hits = sum_list (map (\<lambda>h. int (length (fst h))) hits)"

definition source_of :: "nat \<Rightarrow> string \<times> real \<Rightarrow> source_doc" where
  "source_of i h = \<lparr>src_content = fst h, similarity_score = snd h, rank = i + 1\<rparr>"

definition truncated :: "int \<Rightarrow> string \<Rightarrow> string" where
  "truncated room c = py_prefix c (room - 3) @ ''...''"

definition assemble :: "int \<Rightarrow> (string \<times> real) list \<Rightarrow> string \<times> source_doc list" where
  \<comment> \<open>the part of \<open>retrieve_context\<close> that builds the context from the results\<close>
  "assemble mx results =
     (case context_loop mx 0 results [] 0 [] of
        (context_parts, source_docs) \<Rightarrow>
          (join [CHR 0x0A, CHR 0x0A] context_parts, source_docs))"

definition retrieve_context_body ::
  "knn \<Rightarrow> rag_system \<Rightarrow> string \<Rightarrow> int \<Rightarrow> (string \<times> pyval) list
     \<Rightarrow> exn + (string \<times> source_doc list)" where
  \<comment> \<open>the statements inside \<open>try\<close>; every result passes the threshold filter\<close>
  "retrieve_context_body nn rag query k filter_metadata =
     (case manager_similarity_search nn (vector_store rag) query k filter_metadata of
        Inl x \<Rightarrow> Inl x
      | Inr results \<Rightarrow>
          if results = [] then Inr ([], [])
          else Inr (assemble (max_context_length rag) results))"

definition retrieve_context ::
  "knn \<Rightarrow> rag_system \<Rightarrow> string \<Rightarrow> int \<Rightarrow> (string \<times> pyval) list
     \<Rightarrow> exn + (string \<times> source_doc list)" where
  \<comment> \<open>\<open>try: ... except Exception as e: ... return "", []\<close>\<close>
  "retrieve_context nn rag query k filter_metadata =
     (case retrieve_context_body nn rag query k filter_metadata of
        Inl x \<Rightarrow> Inr ([], [])
      | Inr r \<Rightarrow> Inr r)"

subsection \<open>Example values\<close>

text \<open>
  A store of dimension 2 built on an empty persistence directory, the same store after
  one insertion, an index file that holds one vector, a ranking that returns slot 0, the
  manager that the constructor builds on an empty directory, an embedder that is down, a
  manager over the store of one document, and three hits.
\<close>

definition empty_disk :: disk where
  "empty_disk = \<lparr>faiss_file = Missing, metadata_file = Missing\<rparr>"

definition doc_a :: document where
  "doc_a = \<lparr>doc_id = ''a'', content = ''alpha'', metadata = Map.empty,
            created_at = ''2024-01-01T00:00:00'', embedding = None\<rparr>"

definition store_0 :: store where
  "store_0 = projr (init_store 2 ''flat'' empty_disk)"

definition store_a :: store where
  "store_a = snd (add_documents store_0 [doc_a] [[1, 2]])"

definition stale_knn :: knn where
  "stale_knn ix q k = [(0, 0)]"


definition fresh_manager :: "(string \<Rightarrow> int) \<Rightarrow> nat \<Rightarrow> manager" where
  "fresh_manager hash n =
     \<lparr>store_type = ''faiss'', m_dimension = n, embeddings = mock_embeddings hash n,
      m_store = (blank_store n ''flat'')\<lparr>logged := [(Info, ''Initialized FAISS vector store'')]\<rparr>\<rparr>"

definition failing_embedder :: embedder where
  "failing_embedder =
     \<lparr>embed_documents = (\<lambda>texts. Inl (RuntimeError ''embedding service unavailable'')),
      embed_query = (\<lambda>t. Inl (RuntimeError ''embedding service unavailable''))\<rparr>"

definition manager_a :: manager where
  "manager_a =
     \<lparr>store_type = ''faiss'', m_dimension = 2, embeddings = mock_embeddings (\<lambda>t. 0) 2,
      m_store = store_a\<rparr>"

definition hits_3 :: "(string \<times> real) list" where
  "hits_3 = [(replicate 10 CHR ''a'', 1), (replicate 200 CHR ''b'', 2), (''c'', 3)]"

section \<open>Properties of the chunker\<close>

lemma next_start_gt: "start < next_start ts tx start"
  by (simp add: next_start_def)

declare split_loop.simps [simp del] window_starts.simps [simp del]

lemma window_starts_lower: "x \<in> set (window_starts ts tx start) \<Longrightarrow> start \<le> x"
proof (induction ts tx start rule: window_starts.induct)
  case (1 ts tx start)
  show ?case
  proof (cases "start < int (length tx)")
    case True
    with "1.prems" have "x = start \<or> x \<in> set (window_starts ts tx (next_start ts tx start))"
      by (subst (asm) window_starts.simps) simp
    then show ?thesis
      using "1.IH" [OF True] next_start_gt [of start ts tx] by fastforce
  next
    case False
    with "1.prems" show ?thesis by (subst (asm) window_starts.simps) simp
  qed
qed

lemma window_starts_increasing: "sorted_wrt (<) (window_starts ts tx start)"
proof (induction ts tx start rule: window_starts.induct)
  case (1 ts tx start)
  show ?case
  proof (cases "start < int (length tx)")
    case True
    have "\<forall>x \<in> set (window_starts ts tx (next_start ts tx start)). start < x"
      using window_starts_lower [of _ ts tx "next_start ts tx start"]
            next_start_gt [of start ts tx] by fastforce
    with "1.IH" [OF True] True show ?thesis
      by (subst window_starts.simps) simp
  next
    case False
    then show ?thesis by (subst window_starts.simps) simp
  qed
qed

lemma window_starts_length:
  "int (length (window_starts ts tx start)) \<le> max 0 (int (length tx) - start)"
proof (induction ts tx start rule: window_starts.induct)
  case (1 ts tx start)
  show ?case
  proof (cases "start < int (length tx)")
    case True
    with "1.IH" [OF True] next_start_gt [of start ts tx] show ?thesis
      by (subst window_starts.simps) simp
  next
    case False
    then show ?thesis by (subst window_starts.simps) simp
  qed
qed

lemma split_loop_windows:
  "split_loop ts tx start chunks = chunks @ chunks_of ts tx (window_starts ts tx start)"
proof (induction ts tx start chunks rule: split_loop.induct)
  case (1 ts tx start chunks)
  show ?case
  proof (cases "start < int (length tx)")
    case True
    show ?thesis
      using "1.IH" [OF True refl refl refl] True
      by (subst split_loop.simps, subst window_starts.simps)
         (simp add: chunks_of_def window_chunk_def Let_def)
  next
    case False
    then show ?thesis
      by (subst split_loop.simps, subst window_starts.simps) (simp add: chunks_of_def)
  qed
qed

lemma dropWhile_idem_hd: "xs \<noteq> [] \<Longrightarrow> \<not> P (hd xs) \<Longrightarrow> dropWhile P xs = xs"
  by (cases xs) auto

lemma hd_dropWhile_not: "dropWhile P xs \<noteq> [] \<Longrightarrow> \<not> P (hd (dropWhile P xs))"
  by (simp add: hd_dropWhile)

lemma strip_ends:
  assumes "strip s \<noteq> []"
  shows "\<not> is_space (hd (strip s))" and "\<not> is_space (last (strip s))"
proof -
  let ?t = "dropWhile is_space s"
  let ?u = "dropWhile is_space (rev ?t)"
  from assms have u: "?u \<noteq> []" by (simp add: strip_def)
  have t: "?t \<noteq> []"
  proof
    assume e: "?t = []"
    have "?u = []" unfolding e by simp
    with u show False by simp
  qed
  have "\<not> is_space (hd ?u)" using u by (rule hd_dropWhile_not)
  then show "\<not> is_space (last (strip s))"
    using u by (simp add: strip_def last_rev)
  have "last ?u = last (rev ?t)" using u by (metis last_appendR takeWhile_dropWhile_id)
  also have "\<dots> = hd ?t" using t by (simp add: last_rev)
  finally have "hd (strip s) = hd ?t" using u by (simp add: strip_def hd_rev)
  then show "\<not> is_space (hd (strip s))" using hd_dropWhile_not [OF t] by simp
qed

lemma strip_fixed:
  assumes "s \<noteq> []" "\<not> is_space (hd s)" "\<not> is_space (last s)"
  shows "strip s = s"
proof -
  have "dropWhile is_space s = s" using assms by (simp add: dropWhile_idem_hd)
  moreover have "dropWhile is_space (rev s) = rev s"
    using assms by (intro dropWhile_idem_hd) (simp_all add: hd_rev)
  ultimately show ?thesis by (simp add: strip_def)
qed

lemma strip_strip: "strip (strip s) = strip s"
proof (cases "strip s = []")
  case True
  have "strip [] = []" by (simp add: strip_def)
  with True show ?thesis by simp
next
  case False
  then show ?thesis using strip_ends [OF False] by (intro strip_fixed)
qed

lemma chunks_of_trimmed: "c \<in> set (chunks_of ts tx starts) \<Longrightarrow> c \<noteq> [] \<and> strip c = c"
  by (auto simp: chunks_of_def window_chunk_def strip_strip)

lemma split_text_windows:
  "split_text ts tx =
     (if int (length tx) \<le> chunk_size ts then [tx]
      else chunks_of ts tx (window_starts ts tx 0))"
  by (simp add: split_text_def split_loop_windows)

lemma split_text_short: "int (length tx) \<le> chunk_size ts \<Longrightarrow> split_text ts tx = [tx]"
  by (simp add: split_text_def)

lemma strip_blank:
  assumes "\<forall>c \<in> set s. is_space c"
  shows "strip s = []"
proof -
  have "dropWhile is_space s = []" using assms by (induction s) simp_all
  then show ?thesis unfolding strip_def by (simp del: dropWhile_eq_Nil_conv)
qed

lemma py_slice_subset: "set (py_slice s a b) \<subseteq> set s"
  by (auto simp: py_slice_def Let_def dest: in_set_takeD in_set_dropD)

lemma split_text_blank_long:
  assumes "chunk_size ts < int (length t)" "\<forall>c \<in> set t. is_space c"
  shows "split_text ts t = []"
proof -
  have "window_chunk ts t st = []" for st
    unfolding window_chunk_def using py_slice_subset [of t st] assms(2)
    by (intro strip_blank) blast
  then have "chunks_of ts t sts = []" for sts
    by (simp add: chunks_of_def filter_empty_conv)
  with assms(1) show ?thesis by (simp add: split_text_windows)
qed

lemma rfind_absent:
  assumes "\<And>i. \<not> occurs_at s sub i"
  shows "rfind s sub a b = - 1"
proof -
  have "List.find (occurs_at s sub) xs = None" for xs
    using assms by (simp add: find_None_iff)
  then show ?thesis by (simp add: rfind_def Let_def)
qed

lemma hard_cut_is_past_window:
  assumes "start + chunk_size ts < int (length t)"
      and "\<And>i. \<not> occurs_at t (separator ts) i"
      and "\<And>i. \<not> occurs_at t ''.'' i"
      and "\<And>i. \<not> occurs_at t '' '' i"
  shows "cut_point ts t start = start + chunk_size ts + 1"
  using assms by (simp add: cut_point_def break_point_def rfind_absent)

lemma hard_cut_chunk_length:
  assumes "0 \<le> chunk_size ts" "chunk_size ts < int (length t)"
      and "\<And>i. \<not> occurs_at t (separator ts) i"
      and "\<And>i. \<not> occurs_at t ''.'' i"
      and "\<And>i. \<not> occurs_at t '' '' i"
  shows "int (length (py_slice t 0 (cut_point ts t 0))) = chunk_size ts + 1"
proof -
  have "cut_point ts t 0 = chunk_size ts + 1"
    using hard_cut_is_past_window [of 0 ts t] assms by simp
  with assms(1,2) show ?thesis
    by (simp add: py_slice_def adjust_index_def Let_def)
qed

text \<open>
  Claim C5. Every substring that \<open>split_text\<close> cuts has at most \<open>chunk_size\<close>
  characters before trimming, the hard cut being made at the window boundary. The code
  does not keep this bound: with no separator, period or blank in the window,
  \<open>break_point\<close> is the window's end and the cut is made one character after it. With
  \<open>chunk_size = 2\<close> the text \<open>abcd\<close> gives a first chunk of three characters.
\<close>

theorem split_text_hard_cut_past_window:
  "split_text \<lparr>chunk_size = 2, chunk_overlap = 0, separator = [CHR 0x0A, CHR 0x0A]\<rparr> ''abcd''
     = [''abc'', ''d'']
   \<and> cut_point \<lparr>chunk_size = 2, chunk_overlap = 0, separator = [CHR 0x0A, CHR 0x0A]\<rparr> ''abcd'' 0
     = 3"
  by code_simp

text \<open>
  Claim C6, as stated: every chunk that \<open>split_text\<close> returns is trimmed and non-empty.
  It fails on a text no longer than \<open>chunk_size\<close>, which is returned whole: blanks
  around it are kept, and the empty text gives one empty chunk.
\<close>

theorem split_text_short_untrimmed:
  "split_text default_splitter '' a '' = ['' a ''] \<and> strip '' a '' \<noteq> '' a ''
   \<and> split_text default_splitter [] = [[]]"
  by code_simp

text \<open>
  Claim C6, amended. For a text longer than \<open>chunk_size\<close>, every chunk that
  \<open>split_text\<close> returns is non-empty and trimmed of leading and trailing whitespace.
\<close>

theorem split_text_long_trimmed:
  "chunk_size ts < int (length tx) \<Longrightarrow> c \<in> set (split_text ts tx)
   \<Longrightarrow> c \<noteq> [] \<and> strip c = c"
  using chunks_of_trimmed [of c ts tx "window_starts ts tx 0"]
  by (simp add: split_text_windows)

theorem split_text_long_trimmed_witness:
  "chunk_size \<lparr>chunk_size = 4, chunk_overlap = 1, separator = ''--''\<rparr> < int (length ''ab  cd  ef'')
   \<and> ''cd'' \<in> set (split_text \<lparr>chunk_size = 4, chunk_overlap = 1, separator = ''--''\<rparr> ''ab  cd  ef'')
   \<and> ''cd'' \<noteq> [] \<and> strip ''cd'' = ''cd''"
proof -
  let ?ts = "\<lparr>chunk_size = 4, chunk_overlap = 1, separator = ''--''\<rparr>"
  have h1: "chunk_size ?ts < int (length ''ab  cd  ef'')" by simp
  have h2: "''cd'' \<in> set (split_text ?ts ''ab  cd  ef'')" by code_simp
  from split_text_long_trimmed [OF h1 h2] h1 h2 show ?thesis by simp
qed

text \<open>
  Claim C7. Every iteration of the loop moves \<open>start\<close> to
  \<open>max (start + 1) (end - chunk_overlap)\<close>, \<open>end\<close> being the cut point, so the window
  starts are strictly increasing and the loop ends: it runs at most once for each
  character of the text, whatever the chunk size, the overlap and the separator are.
  \<open>split_loop\<close> is a total function, and what it returns is the chunks of these windows.
\<close>

theorem split_text_progress:
  "next_start ts tx start = max (start + 1) (cut_point ts tx start - chunk_overlap ts)
   \<and> start < next_start ts tx start
   \<and> sorted_wrt (<) (window_starts ts tx 0)
   \<and> length (window_starts ts tx 0) \<le> length tx
   \<and> split_loop ts tx 0 [] = chunks_of ts tx (window_starts ts tx 0)"
proof -
  have "length (window_starts ts tx 0) \<le> length tx"
    using window_starts_length [of ts tx 0] by simp
  then show ?thesis
    by (simp add: next_start_def window_starts_increasing split_loop_windows)
qed

section \<open>Properties of the vector index\<close>




text \<open>
  The condition on the index object holds of a store as the constructor first sets it
  up, and insertions and deletions keep it.
\<close>

lemma wf_index_blank: "wf_index (blank_store n ty)"
  by (simp add: wf_index_def blank_store_def new_flat_def new_ivf_def)

lemma store_loop_other_fields:
  "index (store_loop s st i zs) = index s \<and> dimension (store_loop s st i zs) = dimension s"
  by (induction zs arbitrary: s i) (auto simp: Let_def)

lemma train_if_needed_wf:
  assumes "wf_index s" "train_if_needed s a = (r, s1)"
  shows "wf_index s1"
  using assms
  by (auto simp: train_if_needed_def wf_index_def faiss_train_def new_flat_def log_msg_def
        split: if_splits sum.splits ndarray.splits)

lemma add_documents_wf:
  assumes "wf_index s" "add_documents s docs embs = (r, s')"
  shows "wf_index s'"
proof (cases "length docs \<noteq> length embs")
  case True
  with assms show ?thesis by (simp add: add_documents_def)
next
  case False
  note len = this
  show ?thesis
  proof (cases "np_array embs")
    case (Inl e)
    with assms len show ?thesis by (simp add: add_documents_def)
  next
    case (Inr arr)
    obtain u s1 where t: "train_if_needed s arr = (u, s1)" by (cases "train_if_needed s arr")
    have w1: "wf_index s1" using train_if_needed_wf [OF assms(1) t] .
    show ?thesis
    proof (cases u)
      case (Inl e)
      with assms len Inr t w1 show ?thesis by (simp add: add_documents_def)
    next
      case u: (Inr v)
      show ?thesis
      proof (cases "faiss_add (index s1) arr")
        case (Inl e)
        with assms len Inr t w1 u show ?thesis by (simp add: add_documents_def)
      next
        case ix: (Inr ix)
        from ix w1 have "dim ix = dimension s1 \<and> is_trained ix"
          by (auto simp: faiss_add_def wf_index_def split: ndarray.splits if_splits)
        moreover have "index s' = ix \<and> dimension s' = dimension s1"
          using assms(2) len Inr t u ix
          by (auto simp: add_documents_def Let_def log_msg_def store_loop_other_fields)
        ultimately show ?thesis by (simp add: wf_index_def)
      qed
    qed
  qed
qed

lemma delete_document_wf:
  assumes "wf_index s" "delete_document s x = (r, s')"
  shows "wf_index s'"
  using assms
  by (auto simp: delete_document_def wf_index_def Let_def log_msg_def
        split: if_splits option.splits)

lemma store_loop_documents:
  "documents (store_loop s st i zs) k = Some d \<Longrightarrow>
     documents s k = Some d \<or> (k \<in> doc_id ` fst ` set zs \<and> doc_id d = k)"
proof (induction zs arbitrary: s i)
  case Nil
  then show ?case by simp
next
  case (Cons z zs)
  obtain doc emb where z: "z = (doc, emb)" by (cases z)
  let ?s = "s\<lparr>documents := (documents s)(doc_id doc \<mapsto> doc\<lparr>embedding := Some emb\<rparr>),
              id_to_index := (id_to_index s)(doc_id doc \<mapsto> st + i),
              index_to_id := (index_to_id s)(st + i \<mapsto> doc_id doc)\<rparr>"
  from Cons.prems have "documents (store_loop ?s st (i + 1) zs) k = Some d"
    by (simp add: z Let_def)
  from Cons.IH [OF this] show ?case
    by (auto simp: z split: if_splits)
qed

lemma store_loop_index: "index (store_loop s st i zs) = index s"
  by (induction zs arbitrary: s i) (auto simp: Let_def)

lemma train_if_needed_documents: "documents (snd (train_if_needed s a)) = documents s"
  by (simp add: train_if_needed_def log_msg_def split: sum.splits)

lemma add_documents_cases:
  assumes "add_documents s docs embs = (r, s')"
  shows "documents s' = documents s
         \<or> (\<exists>s1 st. documents s1 = documents s
                \<and> documents s' = documents (store_loop s1 st 0 (zip docs embs)))"
proof (cases "length docs \<noteq> length embs")
  case True
  with assms show ?thesis by (simp add: add_documents_def)
next
  case False
  note len = this
  show ?thesis
  proof (cases "np_array embs")
    case (Inl e)
    with assms len show ?thesis by (simp add: add_documents_def)
  next
    case (Inr arr)
    obtain u s1 where t: "train_if_needed s arr = (u, s1)" by (cases "train_if_needed s arr")
    then have d1: "documents s1 = documents s"
      using train_if_needed_documents [of s arr] by simp
    show ?thesis
    proof (cases u)
      case (Inl e)
      with assms len Inr t d1 show ?thesis by (simp add: add_documents_def)
    next
      case u: (Inr v)
      show ?thesis
      proof (cases "faiss_add (index s1) arr")
        case (Inl e)
        with assms len Inr t d1 u show ?thesis by (simp add: add_documents_def)
      next
        case ix: (Inr ix)
        have "documents (s1\<lparr>index := ix\<rparr>) = documents s" using d1 by simp
        moreover have "documents s' =
            documents (store_loop (s1\<lparr>index := ix\<rparr>) (next_index s1) 0 (zip docs embs))"
          using assms len Inr t u ix by (auto simp: add_documents_def Let_def log_msg_def)
        ultimately show ?thesis by blast
      qed
    qed
  qed
qed

lemma add_documents_documents:
  assumes "add_documents s docs embs = (r, s')" "documents s' k = Some d"
  shows "documents s k = Some d \<or> (k \<in> doc_id ` set docs \<and> doc_id d = k)"
proof -
  have zs: "doc_id ` fst ` set (zip docs embs) \<subseteq> doc_id ` set docs"
    by (auto dest: set_zip_leftD)
  from add_documents_cases [OF assms(1)] show ?thesis
  proof
    assume "documents s' = documents s"
    with assms(2) show ?thesis by simp
  next
    assume "\<exists>s1 st. documents s1 = documents s
              \<and> documents s' = documents (store_loop s1 st 0 (zip docs embs))"
    then obtain s1 st where s1: "documents s1 = documents s"
      and s': "documents s' = documents (store_loop s1 st 0 (zip docs embs))" by blast
    from assms(2) s' have "documents (store_loop s1 st 0 (zip docs embs)) k = Some d"
      by simp
    from store_loop_documents [OF this] s1 zs show ?thesis by auto
  qed
qed

lemma delete_document_documents:
  assumes "delete_document s x = (r, s')" "documents s' k = Some d"
  shows "documents s k = Some d"
  using assms
  by (auto simp: delete_document_def Let_def log_msg_def split: if_splits option.splits)

lemma delete_document_gone:
  assumes "delete_document s did = (Inr True, s')"
  shows "documents s' did = None" and "index s' = index s"
  using assms
  by (auto simp: delete_document_def Let_def log_msg_def split: if_splits option.splits)

lemma add_documents_ids_agree:
  assumes "ids_agree s" "add_documents s docs embs = (r, s')"
  shows "ids_agree s'"
  unfolding ids_agree_def
proof (intro allI impI)
  fix k d assume "documents s' k = Some d"
  from add_documents_documents [OF assms(2) this] assms(1)
  show "doc_id d = k" unfolding ids_agree_def by blast
qed

lemma delete_document_ids_agree:
  assumes "ids_agree s" "delete_document s x = (r, s')"
  shows "ids_agree s'"
  unfolding ids_agree_def
proof (intro allI impI)
  fix k d assume "documents s' k = Some d"
  from delete_document_documents [OF assms(2) this] assms(1)
  show "doc_id d = k" unfolding ids_agree_def by blast
qed

lemma add_documents_absent:
  assumes "documents s did = None" "did \<notin> doc_id ` set docs"
      and "add_documents s docs embs = (r, s')"
  shows "documents s' did = None"
proof (rule ccontr)
  assume "documents s' did \<noteq> None"
  then obtain d where "documents s' did = Some d" by blast
  from add_documents_documents [OF assms(3) this] assms(1,2) show False by simp
qed

lemma delete_document_absent:
  assumes "documents s did = None" "delete_document s x = (r, s')"
  shows "documents s' did = None"
proof (rule ccontr)
  assume "documents s' did \<noteq> None"
  then obtain d where "documents s' did = Some d" by blast
  from delete_document_documents [OF assms(2) this] assms(1) show False by simp
qed

lemma save_index_documents: "save_index s dk = (s', dk') \<Longrightarrow> documents s' = documents s"
  by (auto simp: save_index_def log_msg_def)

lemma restore_documents_ids: "restore_documents m k = Some d \<Longrightarrow> doc_id d = k"
  by (auto simp: restore_documents_def split: option.splits)

lemma load_index_documents:
  "documents (snd (load_index s dk)) = documents s
   \<or> (\<exists>m. documents (snd (load_index s dk)) = restore_documents m)"
proof (cases "load_index_body s dk")
  case (Pair r s1)
  have "documents s1 = documents s \<or> (\<exists>m. documents s1 = restore_documents m)"
    using Pair
    by (cases "faiss_file dk"; cases "metadata_file dk")
       (auto simp: load_index_body_def read_artifact_def exists_file_def log_msg_def Let_def)
  with Pair show ?thesis
    by (cases r) (auto simp: load_index_def log_msg_def)
qed

lemma load_index_ids: "ids_agree s \<Longrightarrow> ids_agree (snd (load_index s dk))"
  using load_index_documents [of s dk] restore_documents_ids
  unfolding ids_agree_def by metis

lemma init_store_ids_agree:
  assumes "init_store n ty dk = Inr s"
  shows "ids_agree s"
proof -
  have "ids_agree (blank_store n ty)" by (simp add: ids_agree_def blank_store_def)
  then have l: "ids_agree (snd (load_index (blank_store n ty) dk))" by (rule load_index_ids)
  obtain r s1 where p: "load_index (blank_store n ty) dk = (r, s1)"
    by (cases "load_index (blank_store n ty) dk")
  with l have s1: "ids_agree s1" by simp
  from assms p have ok: "ty = ''flat'' \<or> ty = ''ivf''"
    by (simp add: init_store_def split: if_splits)
  from assms p ok have "documents s = documents s1"
    by (cases r) (auto simp: init_store_def log_msg_def)
  with s1 show ?thesis by (simp add: ids_agree_def)
qed

lemma reachable_ids_agree: "reachable s \<Longrightarrow> ids_agree s"
proof (induction rule: reachable.induct)
  case (reach_init n ty dk s)
  then show ?case by (rule init_store_ids_agree)
next
  case (reach_add s docs embs r s')
  then show ?case using add_documents_ids_agree by blast
next
  case (reach_delete s did r s')
  then show ?case using delete_document_ids_agree by blast
next
  case (reach_save s dk s' dk')
  then show ?case using save_index_documents [OF reach_save.hyps(2)] by (simp add: ids_agree_def)
qed

lemma later_without_keeps:
  "later_without did s s' \<Longrightarrow> ids_agree s \<Longrightarrow> documents s did = None
     \<Longrightarrow> ids_agree s' \<and> documents s' did = None"
proof (induction rule: later_without.induct)
  case (later_refl did s)
  then show ?case by simp
next
  case (later_add did s s' docs embs r s'')
  then have a: "ids_agree s'" and b: "documents s' did = None" by simp_all
  show ?case
    using add_documents_ids_agree [OF a later_add.hyps(3)]
          add_documents_absent [OF b later_add.hyps(2) later_add.hyps(3)] by simp
next
  case (later_delete did s s' x r s'')
  then have a: "ids_agree s'" and b: "documents s' did = None" by simp_all
  show ?case
    using delete_document_ids_agree [OF a later_delete.hyps(2)]
          delete_document_absent [OF b later_delete.hyps(2)] by simp
next
  case (later_save did s s' dk s'' dk')
  then have a: "ids_agree s'" and b: "documents s' did = None" by simp_all
  with save_index_documents [OF later_save.hyps(2)] show ?case by (simp add: ids_agree_def)
qed

lemma search_loop_step:
  "search_loop s flt ((distance, pos) # rest) acc = search_loop s flt rest acc
   \<or> (\<exists>did doc. documents s did = Some doc
         \<and> search_loop s flt ((distance, pos) # rest) acc
             = search_loop s flt rest (acc @ [(doc, distance)]))"
proof (cases "pos = - 1")
  case True
  then show ?thesis by simp
next
  case False
  note pos = this
  show ?thesis
  proof (cases "index_to_id s pos")
    case None
    with pos show ?thesis by simp
  next
    case (Some did)
    show ?thesis
    proof (cases "documents s did")
      case None
      with pos Some show ?thesis by simp
    next
      case doc: (Some doc)
      with pos Some show ?thesis by (cases "did = []") auto
    qed
  qed
qed

lemma search_loop_hits:
  "(doc, sc) \<in> set (search_loop s flt found acc) \<Longrightarrow>
     (doc, sc) \<in> set acc \<or> (\<exists>k. documents s k = Some doc)"
proof (induction found arbitrary: acc)
  case Nil
  then show ?case by simp
next
  case (Cons p found)
  obtain distance pos where p: "p = (distance, pos)" by (cases p)
  from search_loop_step [of s flt distance pos found acc]
  consider "search_loop s flt (p # found) acc = search_loop s flt found acc"
    | did d where "documents s did = Some d"
        "search_loop s flt (p # found) acc = search_loop s flt found (acc @ [(d, distance)])"
    unfolding p by blast
  then show ?case
  proof cases
    case 1
    with Cons.prems have "(doc, sc) \<in> set (search_loop s flt found acc)" by simp
    from Cons.IH [OF this] show ?thesis .
  next
    case 2
    with Cons.prems have "(doc, sc) \<in> set (search_loop s flt found (acc @ [(d, distance)]))"
      by simp
    from Cons.IH [OF this] 2(1) show ?thesis by auto
  qed
qed

lemma similarity_search_hits:
  assumes "similarity_search nn s q k flt = Inr hits" "(doc, sc) \<in> set hits"
  shows "\<exists>key. documents s key = Some doc"
  using assms search_loop_hits [of doc sc s flt _ "[]"]
  by (auto simp: similarity_search_def split: if_splits sum.splits)

text \<open>The two examples evaluated.\<close>

lemma init_flat_empty:
  "init_store 2 ''flat'' empty_disk
     = Inr ((blank_store 2 ''flat'')\<lparr>logged := [(Info, ''Initialized FAISS vector store'')]\<rparr>)"
  by (simp add: init_store_def load_index_def load_index_body_def exists_file_def
        empty_disk_def log_msg_def blank_store_def)

lemma init_store_0: "init_store 2 ''flat'' empty_disk = Inr store_0"
  by (simp add: store_0_def init_flat_empty)

lemma store_a_eq: "add_documents store_0 [doc_a] [[1, 2]] = (Inr (), store_a)"
  by (simp add: store_a_def store_0_def init_flat_empty add_documents_def np_array_def
        train_if_needed_def faiss_add_def blank_store_def new_flat_def Let_def)

lemma store_a_fields:
  "documents store_a ''a'' = Some (doc_a\<lparr>embedding := Some [1, 2]\<rparr>)"
  "id_to_index store_a ''a'' = Some 0"
  "index_to_id store_a 0 = Some ''a''"
  "vectors (index store_a) = [[1, 2]]"
  "dim (index store_a) = 2"
  by (simp_all add: store_a_def store_0_def init_flat_empty add_documents_def np_array_def
        train_if_needed_def faiss_add_def blank_store_def new_flat_def Let_def log_msg_def
        doc_a_def)

lemma delete_a: "fst (delete_document store_a ''a'') = Inr True"
  by (simp add: delete_document_def store_a_fields Let_def)

lemma delete_a_fields:
  "index_to_id (snd (delete_document store_a ''a'')) 0 = None"
  "index (snd (delete_document store_a ''a'')) = index store_a"
  by (simp_all add: delete_document_def store_a_fields Let_def log_msg_def)

lemma search_after_delete:
  "similarity_search stale_knn (snd (delete_document store_a ''a'')) [1, 2] 1 [] = Inr []"
  by (simp add: similarity_search_def faiss_search_def ntotal_def delete_a_fields
        store_a_fields stale_knn_def)

lemma search_before_delete:
  "similarity_search stale_knn store_a [1, 2] 1 [] = Inr [(doc_a\<lparr>embedding := Some [1, 2]\<rparr>, 0)]"
  by (simp add: similarity_search_def faiss_search_def ntotal_def
        store_a_fields stale_knn_def)

text \<open>
  Claim C3. In a reachable state, once \<open>delete_document\<close> has returned \<open>True\<close> for an
  id, no search returns a document with that id, in the state the deletion leaves and in
  every later state, until a document with that id is inserted again; the deletion
  leaves the numeric store as it was, the slot included.
\<close>

theorem deleted_never_found:
  assumes "reachable s"
      and "delete_document s did = (Inr True, s1)"
      and "later_without did s1 s2"
      and "similarity_search nn s2 q k flt = Inr hits"
  shows "did \<notin> doc_id ` fst ` set hits
         \<and> vectors (index s1) = vectors (index s) \<and> ntotal (index s1) = ntotal (index s)"
proof -
  have r1: "reachable s1" using assms(1,2) by (rule reach_delete)
  have gone: "documents s1 did = None" and ix: "index s1 = index s"
    using delete_document_gone [OF assms(2)] by simp_all
  from later_without_keeps [OF assms(3) reachable_ids_agree [OF r1] gone]
  have a: "ids_agree s2" and b: "documents s2 did = None" by simp_all
  have "did \<notin> doc_id ` fst ` set hits"
  proof
    assume "did \<in> doc_id ` fst ` set hits"
    then obtain doc sc where h: "(doc, sc) \<in> set hits" "doc_id doc = did" by force
    from similarity_search_hits [OF assms(4) h(1)] obtain key where "documents s2 key = Some doc"
      by blast
    with a h(2) b show False by (auto simp: ids_agree_def)
  qed
  with ix show ?thesis by (simp add: ntotal_def)
qed

theorem deleted_never_found_witness:
  "reachable store_a
   \<and> similarity_search stale_knn store_a [1, 2] 1 []
       = Inr [(doc_a\<lparr>embedding := Some [1, 2]\<rparr>, 0)]
   \<and> delete_document store_a ''a'' = (Inr True, snd (delete_document store_a ''a''))
   \<and> later_without ''a'' (snd (delete_document store_a ''a'')) (snd (delete_document store_a ''a''))
   \<and> similarity_search stale_knn (snd (delete_document store_a ''a'')) [1, 2] 1 [] = Inr []
   \<and> ''a'' \<notin> doc_id ` fst ` set ([] :: (document \<times> real) list)
   \<and> vectors (index (snd (delete_document store_a ''a''))) = [[1, 2]]
   \<and> ntotal (index (snd (delete_document store_a ''a''))) = 1"
proof -
  have r: "reachable store_a"
    using reach_add [OF reach_init [OF init_store_0] store_a_eq] .
  have d: "delete_document store_a ''a'' = (Inr True, snd (delete_document store_a ''a''))"
    using delete_a by (metis prod.collapse)
  have l: "later_without ''a'' (snd (delete_document store_a ''a''))
             (snd (delete_document store_a ''a''))" by (rule later_refl)
  from deleted_never_found [OF r d l search_after_delete] r d l search_after_delete
  show ?thesis by (simp add: store_a_fields ntotal_def search_before_delete)
qed

lemma load_index_returns: "fst (load_index s dk) = Inr ()"
  by (cases "load_index_body s dk") (auto simp: load_index_def split: sum.splits)




section \<open>Properties of ingestion and context assembly\<close>

lemma init_manager_fresh: "init_manager hash ''faiss'' n empty_disk = Inr (fresh_manager hash n)"
  by (simp add: init_manager_def init_store_def load_index_def load_index_body_def
        exists_file_def empty_disk_def log_msg_def fresh_manager_def blank_store_def)

lemma length_mock_vector: "length (mock_vector hash n t) = n"
  by (simp add: mock_vector_def)

lemma add_documents_one:
  assumes "index s = new_flat n" "length v = n"
  shows "\<exists>s'. add_documents s [doc] [v] = (Inr (), s')
           \<and> documents s' (doc_id doc) = Some (doc\<lparr>embedding := Some v\<rparr>)
           \<and> vectors (index s') = [v]"
  using assms
  by (simp add: add_documents_def np_array_def train_if_needed_def faiss_add_def
        new_flat_def Let_def log_msg_def)

lemma process_short_text:
  assumes "int (length t) \<le> chunk_size ts"
  shows "map chunk_content (process_text_content ts e 0 t name md) = [t]"
    and "length (process_text_content ts e 0 t name md) = 1"
  using assms by (simp_all add: process_text_content_def split_text_short)

lemma add_texts_one:
  assumes "index (m_store m) = new_flat n" "embeddings m = mock_embeddings hash n"
  shows "\<exists>m' dk'. add_texts e first m dk [t] (Some [md]) = (Inr [uuids e first], m', dk')
           \<and> map_option content (documents (m_store m') (uuids e first)) = Some t
           \<and> vectors (index (m_store m')) = [mock_vector hash n t]"
proof -
  let ?doc = "new_document e first t md"
  from add_documents_one [OF assms(1) length_mock_vector, of ?doc hash t]
  obtain s' where s': "add_documents (m_store m) [?doc] [mock_vector hash n t] = (Inr (), s')"
    "documents s' (doc_id ?doc) = Some (?doc\<lparr>embedding := Some (mock_vector hash n t)\<rparr>)"
    "vectors (index s') = [mock_vector hash n t]"
    by blast
  have id: "doc_id ?doc = uuids e first" by (simp add: new_document_def)
  show ?thesis
    using s' assms(2) id
    by (simp add: add_texts_def mock_embeddings_def save_index_def log_msg_def
          new_document_def)
qed

lemma add_text_content_short:
  assumes "int (length t) \<le> 1000"
  shows "\<exists>res rag' dk'.
           add_text_content e (init_rag (fresh_manager hash n)) empty_disk t name md
             = (Inr res, rag', dk')
           \<and> chunks_created res = 1 \<and> document_ids res = [uuids e 1]
           \<and> map_option content (documents (m_store (vector_store rag')) (uuids e 1)) = Some t
           \<and> ntotal (index (m_store (vector_store rag'))) = 1"
proof -
  let ?rag = "init_rag (fresh_manager hash n)"
  let ?chunks = "process_text_content (document_processor ?rag) e 0 t name md"
  have short: "int (length t) \<le> chunk_size (document_processor ?rag)"
    using assms by (simp add: init_rag_def default_splitter_def)
  have texts: "map chunk_content ?chunks = [t]" and len: "length ?chunks = 1"
    using process_short_text [OF short] by simp_all
  then obtain ch where ch: "?chunks = [ch]" by (cases ?chunks) auto
  have ix: "index (m_store (vector_store ?rag)) = new_flat n"
    by (simp add: init_rag_def fresh_manager_def blank_store_def)
  have em: "embeddings (vector_store ?rag) = mock_embeddings hash n"
    by (simp add: init_rag_def fresh_manager_def)
  from add_texts_one [OF ix em, of e 1 empty_disk t "ingest_metadata e name md ch"]
  obtain m' dk' where a:
    "add_texts e 1 (vector_store ?rag) empty_disk [t] (Some [ingest_metadata e name md ch])
       = (Inr [uuids e 1], m', dk')"
    "map_option content (documents (m_store m') (uuids e 1)) = Some t"
    "vectors (index (m_store m')) = [mock_vector hash n t]"
    by blast
  show ?thesis
    using a texts ch by (simp add: add_text_content_def Let_def ntotal_def)
qed

text \<open>
  Claim C2. An ingest of empty or whitespace-only text must fail. On the system as it is
  first built (the module's processor, a manager on an empty persistence directory) the
  ingest of the empty text returns: \<open>split_text\<close> gives the one chunk \<open>""\<close>, the test
  \<open>not chunks\<close> is false, and a document with empty content is inserted.
\<close>

theorem add_text_content_accepts_blank:
  "\<exists>res rag' dk'.
     add_text_content e (init_rag (fresh_manager hash n)) empty_disk '''' name md
       = (Inr res, rag', dk')
     \<and> chunks_created res = 1 \<and> document_ids res = [uuids e 1]
     \<and> map_option content (documents (m_store (vector_store rag')) (uuids e 1)) = Some ''''
     \<and> ntotal (index (m_store (vector_store rag'))) = 1"
  by (rule add_text_content_short) simp

lemma add_text_content_no_chunks:
  "process_text_content (document_processor rag) e 0 t name md = []
   \<Longrightarrow> add_text_content e rag dk t name md = (Inl (ValueError ''No content to process''), rag, dk)"
  by (simp add: add_text_content_def)

lemma add_text_content_rejects_long_blank:
  assumes "1000 < length t" "\<forall>c \<in> set t. is_space c"
  shows "add_text_content e (init_rag m) dk t name md
           = (Inl (ValueError ''No content to process''), init_rag m, dk)"
proof -
  have "split_text (document_processor (init_rag m)) t = []"
    using assms by (intro split_text_blank_long) (simp_all add: init_rag_def default_splitter_def)
  then show ?thesis
    by (simp add: add_text_content_def process_text_content_def)
qed

lemma add_text_content_accepts_spaces:
  "\<exists>res rag' dk'.
     add_text_content e (init_rag (fresh_manager hash n)) empty_disk ''   '' name md
       = (Inr res, rag', dk')
     \<and> chunks_created res = 1
     \<and> map_option content (documents (m_store (vector_store rag')) (uuids e 1)) = Some ''   ''"
  using add_text_content_short [of "''   ''" e hash n name md] by auto

lemma py_prefix_length: "0 \<le> n \<Longrightarrow> int (length (py_prefix c n)) \<le> n"
  by (auto simp: py_prefix_def py_slice_def adjust_index_def Let_def)

lemma truncated_shorter:
  assumes "100 < room" "room < int (length c)"
  shows "length (truncated room c) < length c"
  using py_prefix_length [of "room - 3" c] assms by (simp add: truncated_def)

lemma label_inject: "label i x = label i y \<longleftrightarrow> x = y"
  by (simp add: label_def)

lemma context_loop_shape:
  "context_loop mx i hits parts tot srcs = (parts', srcs') \<Longrightarrow>
   \<exists>m P. m \<le> length hits \<and> srcs' = srcs @ map (\<lambda>j. source_of (i + j) (hits ! j)) [0 ..< m]
      \<and> parts' = parts @ map (\<lambda>j. label (i + j) (fst (hits ! j))) [0 ..< m] @ P
      \<and> (m = 0 \<or> tot + used (take m hits) \<le> mx)
      \<and> (m < length hits \<longrightarrow> mx < tot + used (take (Suc m) hits))
      \<and> (P = [] \<or> (m < length hits \<and> 100 < mx - (tot + used (take m hits))
               \<and> P = [label (i + m) (truncated (mx - (tot + used (take m hits))) (fst (hits ! m)))]))
      \<and> (P = [] \<and> m < length hits \<longrightarrow> mx - (tot + used (take m hits)) \<le> 100)"
proof (induction hits arbitrary: i parts tot srcs)
  case Nil
  then show ?case by (simp add: used_def)
next
  case (Cons h hits)
  obtain c score where h: "h = (c, score)" by (cases h)
  show ?case
  proof (cases "mx < tot + int (length c)")
    case True
    then show ?thesis
      using Cons.prems unfolding h
      by (intro exI [of _ 0]) (auto simp: used_def truncated_def Let_def split: if_splits)
  next
    case False
    with Cons.prems have
      "context_loop mx (i + 1) hits (parts @ [label i c]) (tot + int (length c))
         (srcs @ [\<lparr>src_content = c, similarity_score = score, rank = i + 1\<rparr>]) = (parts', srcs')"
      unfolding h by simp
    from Cons.IH [OF this] obtain m P where
      m: "m \<le> length hits"
      and s: "srcs' = (srcs @ [\<lparr>src_content = c, similarity_score = score, rank = i + 1\<rparr>])
                @ map (\<lambda>j. source_of (i + 1 + j) (hits ! j)) [0 ..< m]"
      and p: "parts' = (parts @ [label i c]) @ map (\<lambda>j. label (i + 1 + j) (fst (hits ! j))) [0 ..< m] @ P"
      and u: "m = 0 \<or> tot + int (length c) + used (take m hits) \<le> mx"
      and n: "m < length hits \<longrightarrow> mx < tot + int (length c) + used (take (Suc m) hits)"
      and t: "P = [] \<or> (m < length hits \<and> 100 < mx - (tot + int (length c) + used (take m hits))
               \<and> P = [label (i + 1 + m) (truncated (mx - (tot + int (length c) + used (take m hits))) (fst (hits ! m)))])"
      and q: "P = [] \<and> m < length hits \<longrightarrow> mx - (tot + int (length c) + used (take m hits)) \<le> 100"
      by blast
    have shift: "\<And>f. map f [0 ..< Suc m] = f 0 # map (\<lambda>j. f (Suc j)) [0 ..< m]"
      by (simp add: upt_conv_Cons map_Suc_upt [symmetric] del: upt_Suc)
    have used_Cons: "\<And>k. used (take (Suc k) (h # hits)) = int (length c) + used (take k hits)"
      by (simp add: used_def h)
    show ?thesis
      apply (rule exI [of _ "Suc m"], rule exI [of _ P])
      apply (intro conjI)
      subgoal using m by simp
      subgoal using s by (simp add: shift source_of_def h del: upt_Suc)
      subgoal using p by (simp add: shift h del: upt_Suc)
      subgoal using u False by (auto simp: used_Cons used_def h)
      subgoal using n by (simp add: used_Cons add.assoc del: take_Suc_Cons)
      subgoal using t by (auto simp: used_Cons add.assoc simp del: take_Suc_Cons)
      subgoal using q by (simp add: used_Cons add.assoc del: take_Suc_Cons)
      done
  qed
qed

lemma used_take_Suc:
  "m < length hits \<Longrightarrow> used (take (Suc m) hits) = used (take m hits) + int (length (fst (hits ! m)))"
  by (simp add: used_def take_Suc_conv_app_nth)

text \<open>
  Claim C8. A hit is recorded in the source list exactly when its full content is a block
  of the context. After the full blocks there is at most one more block: a truncated
  prefix of the next hit followed by an ellipsis, present only when the remaining budget
  exceeds 100 characters; it is labelled, it is not recorded as a source, and nothing
  follows it.
\<close>

theorem sources_are_the_full_hits:
  assumes "context_loop mx 0 hits [] 0 [] = (parts, srcs)"
  shows "assemble mx hits = (join [CHR 0x0A, CHR 0x0A] parts, srcs)
     \<and> length srcs \<le> length hits
     \<and> (\<forall>j < length hits.
            (j < length srcs) = (j < length parts \<and> parts ! j = label j (fst (hits ! j))))
     \<and> (\<forall>j < length srcs. srcs ! j = source_of j (hits ! j))
     \<and> (length parts = length srcs
          \<or> (length parts = Suc (length srcs) \<and> length srcs < length hits
              \<and> 100 < mx - used (take (length srcs) hits)
              \<and> last parts = label (length srcs)
                   (truncated (mx - used (take (length srcs) hits)) (fst (hits ! length srcs)))))"
proof -
  from context_loop_shape [OF assms] obtain m P where
    m: "m \<le> length hits"
    and s: "srcs = map (\<lambda>j. source_of j (hits ! j)) [0 ..< m]"
    and p: "parts = map (\<lambda>j. label j (fst (hits ! j))) [0 ..< m] @ P"
    and n: "m < length hits \<longrightarrow> mx < used (take (Suc m) hits)"
    and t: "P = [] \<or> (m < length hits \<and> 100 < mx - used (take m hits)
             \<and> P = [label m (truncated (mx - used (take m hits)) (fst (hits ! m)))])"
    by auto
  have ls: "length srcs = m" using s by simp
  have lp: "length parts = m + length P" using p by simp
  have full: "\<And>j. j < m \<Longrightarrow> parts ! j = label j (fst (hits ! j))"
    using p by (simp add: nth_append)
  have a: "assemble mx hits = (join [CHR 0x0A, CHR 0x0A] parts, srcs)"
    using assms by (simp add: assemble_def)
  have iff: "(j < length srcs) = (j < length parts \<and> parts ! j = label j (fst (hits ! j)))"
    if j: "j < length hits" for j
  proof
    assume "j < length srcs"
    then show "j < length parts \<and> parts ! j = label j (fst (hits ! j))"
      using ls lp full by simp
  next
    assume r: "j < length parts \<and> parts ! j = label j (fst (hits ! j))"
    show "j < length srcs"
    proof (rule ccontr)
      assume "\<not> j < length srcs"
      then have jm: "m \<le> j" using ls by simp
      with r lp have "P \<noteq> []" by auto
      with t have mh: "m < length hits" and room: "100 < mx - used (take m hits)"
        and P: "P = [label m (truncated (mx - used (take m hits)) (fst (hits ! m)))]" by auto
      from r lp P jm have "j = m" by simp
      with r p P have "label m (truncated (mx - used (take m hits)) (fst (hits ! m)))
                        = label m (fst (hits ! m))"
        by (simp add: nth_append)
      then have eq: "truncated (mx - used (take m hits)) (fst (hits ! m)) = fst (hits ! m)"
        by (simp add: label_inject)
      from n mh have "mx - used (take m hits) < int (length (fst (hits ! m)))"
        by (simp add: used_take_Suc)
      from truncated_shorter [OF room this] eq show False by simp
    qed
  qed
  have src: "\<forall>j < length srcs. srcs ! j = source_of j (hits ! j)"
    using s by simp
  have last_block: "length parts = length srcs
          \<or> (length parts = Suc (length srcs) \<and> length srcs < length hits
              \<and> 100 < mx - used (take (length srcs) hits)
              \<and> last parts = label (length srcs)
                   (truncated (mx - used (take (length srcs) hits)) (fst (hits ! length srcs))))"
    using t p ls by auto
  from a m ls iff src last_block show ?thesis by blast
qed

lemma context_loop_hits_3:
  "context_loop 120 0 hits_3 [] 0 []
   = ([label 0 (replicate 10 CHR ''a''), label 1 (replicate 107 CHR ''b'' @ ''...'')],
      [\<lparr>src_content = replicate 10 CHR ''a'', similarity_score = 1, rank = 1\<rparr>])"
  by (simp add: hits_3_def py_prefix_def py_slice_def adjust_index_def Let_def
        replicate_add [symmetric] del: replicate_add)

theorem sources_are_the_full_hits_witness:
  "context_loop 120 0 hits_3 [] 0 []
     = ([label 0 (replicate 10 CHR ''a''), label 1 (replicate 107 CHR ''b'' @ ''...'')],
        [\<lparr>src_content = replicate 10 CHR ''a'', similarity_score = 1, rank = 1\<rparr>])
   \<and> assemble 120 hits_3
     = (join [CHR 0x0A, CHR 0x0A]
          [label 0 (replicate 10 CHR ''a''), label 1 (replicate 107 CHR ''b'' @ ''...'')],
        [\<lparr>src_content = replicate 10 CHR ''a'', similarity_score = 1, rank = 1\<rparr>])
   \<and> length hits_3 = 3"
  using sources_are_the_full_hits [OF context_loop_hits_3] context_loop_hits_3
  by (simp add: hits_3_def)

text \<open>
  Claim C9, as stated: with a budget of 0, \<open>assemble\<close> returns an empty context and no
  source, whatever the hits. A hit with empty content does not exceed the budget: it is
  included and recorded.
\<close>

theorem assemble_zero_budget_empty_hit:
  "assemble 0 [('''', 0)]
     = (''[Document 1]: '', [\<lparr>src_content = '''', similarity_score = 0, rank = 1\<rparr>])"
  by (simp add: assemble_def label_def)

text \<open>
  Claim C9, amended. With a budget of 0, \<open>assemble\<close> returns an empty context and no
  source for every hit sequence that is empty or whose first hit has non-empty content.
\<close>

theorem assemble_zero_budget:
  assumes "hits = [] \<or> fst (hd hits) \<noteq> []"
  shows "assemble 0 hits = ('''', [])"
proof (cases hits)
  case Nil
  then show ?thesis by (simp add: assemble_def)
next
  case (Cons h rest)
  obtain c score where h: "h = (c, score)" by (cases h)
  with assms Cons have "c \<noteq> []" by simp
  then have "0 < int (length c)" by simp
  then show ?thesis unfolding Cons h by (simp add: assemble_def)
qed

theorem assemble_zero_budget_witness:
  "fst (hd [(''refund window'', 1 :: real)]) \<noteq> []
   \<and> assemble 0 [(''refund window'', 1)] = ('''', [])"
proof -
  have h: "[(''refund window'', 1 :: real)] = [] \<or> fst (hd [(''refund window'', 1 :: real)]) \<noteq> []"
    by simp
  from assemble_zero_budget [OF h] show ?thesis by simp
qed

text \<open>
  Claim C10. \<open>retrieve_context\<close> always returns: if the embedding of the query or the
  search of the index raises, the result is the empty context with no source.
\<close>

theorem retrieve_context_never_raises:
  "retrieve_context nn rag query k flt =
     Inr (case manager_similarity_search nn (vector_store rag) query k flt of
            Inl x \<Rightarrow> ('''', [])
          | Inr results \<Rightarrow> assemble (max_context_length rag) results)
   \<and> (embed_query (embeddings (vector_store rag)) query = Inl x
        \<longrightarrow> retrieve_context nn rag query k flt = Inr ('''', []))
   \<and> (embed_query (embeddings (vector_store rag)) query = Inr qe
        \<and> similarity_search nn (m_store (vector_store rag)) qe k flt = Inl y
        \<longrightarrow> retrieve_context nn rag query k flt = Inr ('''', []))"
  by (auto simp: retrieve_context_def retrieve_context_body_def manager_similarity_search_def
        assemble_def split: sum.splits)

lemma manager_a_fields:
  "embed_query (embeddings manager_a) t = Inr (mock_vector (\<lambda>t. 0) 2 t)"
  "m_store manager_a = store_a"
  by (simp_all add: manager_a_def mock_embeddings_def)

lemma search_with_k_zero:
  "similarity_search stale_knn store_a (mock_vector (\<lambda>t. 0) 2 ''q'') 0 [] = Inl AssertionError"
  by (simp add: similarity_search_def faiss_search_def ntotal_def store_a_fields mock_vector_def)

theorem retrieve_context_never_raises_witness:
  "embed_query (embeddings (vector_store (init_rag (manager_a\<lparr>embeddings := failing_embedder\<rparr>)))) ''q''
     = Inl (RuntimeError ''embedding service unavailable'')
   \<and> retrieve_context stale_knn (init_rag (manager_a\<lparr>embeddings := failing_embedder\<rparr>)) ''q'' 5 []
     = Inr ('''', [])
   \<and> embed_query (embeddings (vector_store (init_rag manager_a))) ''q''
     = Inr (mock_vector (\<lambda>t. 0) 2 ''q'')
   \<and> similarity_search stale_knn (m_store (vector_store (init_rag manager_a)))
         (mock_vector (\<lambda>t. 0) 2 ''q'') 0 [] = Inl AssertionError
   \<and> retrieve_context stale_knn (init_rag manager_a) ''q'' 0 [] = Inr ('''', [])"
proof -
  let ?down = "init_rag (manager_a\<lparr>embeddings := failing_embedder\<rparr>)"
  have e1: "embed_query (embeddings (vector_store ?down)) ''q''
              = Inl (RuntimeError ''embedding service unavailable'')"
    by (simp add: init_rag_def failing_embedder_def)
  have e2: "embed_query (embeddings (vector_store (init_rag manager_a))) ''q''
              = Inr (mock_vector (\<lambda>t. 0) 2 ''q'')"
    by (simp add: init_rag_def manager_a_fields)
  have s2: "similarity_search stale_knn (m_store (vector_store (init_rag manager_a)))
              (mock_vector (\<lambda>t. 0) 2 ''q'') 0 [] = Inl AssertionError"
    by (simp add: init_rag_def manager_a_fields search_with_k_zero)
  have r1: "retrieve_context stale_knn ?down ''q'' 5 [] = Inr ('''', [])"
    using retrieve_context_never_raises
            [of stale_knn ?down "''q''" 5 "[]" "RuntimeError ''embedding service unavailable''"]
          e1 by blast
  have r2: "retrieve_context stale_knn (init_rag manager_a) ''q'' 0 [] = Inr ('''', [])"
    using retrieve_context_never_raises
            [of stale_knn "init_rag manager_a" "''q''" 0 "[]" _ "mock_vector (\<lambda>t. 0) 2 ''q''"
                AssertionError]
          e2 s2 by blast
  from e1 r1 e2 s2 r2 show ?thesis by blast
qed

end
